theory Spec2Isabelle
  imports Main
begin

section \<open>Python strings\<close>

text \<open>
  A Python \<^verbatim>\<open>str\<close> is modelled as a \<^typ>\<open>string\<close>, one \<^typ>\<open>char\<close> per code point
  (so the model covers the code points below 256). \<open>length\<close> is Python's \<^verbatim>\<open>len\<close>,
  \<open>take n\<close> is the slice \<^verbatim>\<open>s[:n]\<close>, \<open>@\<close> is \<^verbatim>\<open>+\<close>, and a string is truthy when
  it is not empty.
\<close>

text \<open>The code points below 256 that \<^verbatim>\<open>str.isspace\<close>, \<^verbatim>\<open>str.strip()\<close> and the
  regular expression class \<^verbatim>\<open>\s\<close> take as white space.\<close>

definition is_space :: "char \<Rightarrow> bool" where
  "is_space c = (c \<in> set [CHR 0x09, CHR 0x0A, CHR 0x0B, CHR 0x0C, CHR 0x0D,
     CHR 0x1C, CHR 0x1D, CHR 0x1E, CHR 0x1F, CHR 0x20, CHR 0x85, CHR 0xA0])"

text \<open>\<^verbatim>\<open>s.strip()\<close>\<close>

definition strip :: "string \<Rightarrow> string" where
  "strip s = rev (dropWhile is_space (rev (dropWhile is_space s)))"

text \<open>The truth value of a Python value that is \<^verbatim>\<open>None\<close> or a string.\<close>

definition truthy_opt :: "string option \<Rightarrow> bool" where
  "truthy_opt x = (case x of None \<Rightarrow> False | Some s \<Rightarrow> s \<noteq> [])"

text \<open>\<^verbatim>\<open>s.startswith(p)\<close>\<close>

fun startswith :: "string \<Rightarrow> string \<Rightarrow> bool" where
  "startswith s [] = True"
| "startswith [] (p # ps) = False"
| "startswith (c # cs) (p # ps) = (c = p \<and> startswith cs ps)"


text \<open>\<^verbatim>\<open>s.split(sep)\<close> for a separator of one character. The result is never empty.\<close>

fun split_on :: "char \<Rightarrow> string \<Rightarrow> string list" where
  "split_on sep [] = [[]]"
| "split_on sep (c # cs) =
     (if c = sep then [] # split_on sep cs
      else (case split_on sep cs of [] \<Rightarrow> [[c]] | l # ls \<Rightarrow> (c # l) # ls))"


text \<open>\<^verbatim>\<open>sub in s\<close>\<close>

fun contains :: "string \<Rightarrow> string \<Rightarrow> bool" where
  "contains [] sub = (sub = [])"
| "contains (c # cs) sub = (startswith (c # cs) sub \<or> contains cs sub)"

text \<open>
  \<^verbatim>\<open>s.replace(old, new)\<close> for a non-empty \<^verbatim>\<open>old\<close> (both calls of the source pass
  a literal): the occurrences are replaced from the left, without overlap.
\<close>

function py_replace :: "string \<Rightarrow> string \<Rightarrow> string \<Rightarrow> string" where
  "py_replace old new [] = []"
| "py_replace old new (c # cs) =
     (if old \<noteq> [] \<and> startswith (c # cs) old
      then new @ py_replace old new (drop (length old - 1) cs)
      else c # py_replace old new cs)"
  by pat_completeness auto
termination
  by (relation "measure (\<lambda>(old, new, s). length s)") auto

text \<open>
  The tokens of a white-space separated attribute value, as the parser stores a
  \<^verbatim>\<open>class\<close> attribute (the matches of \<^verbatim>\<open>\S+\<close>). \<open>cur\<close> is the token being read.
\<close>

fun tokens :: "string \<Rightarrow> string \<Rightarrow> string list" where
  "tokens cur [] = (if cur = [] then [] else [cur])"
| "tokens cur (c # cs) =
     (if is_space c then (if cur = [] then tokens [] cs else cur # tokens [] cs)
      else tokens (cur @ [c]) cs)"

text \<open>\<^verbatim>\<open>" ".join(xs)\<close>\<close>

fun join_sp :: "string list \<Rightarrow> string" where
  "join_sp [] = []"
| "join_sp [x] = x"
| "join_sp (x # y # ys) = x @ CHR 0x20 # join_sp (y # ys)"

section \<open>The parsed document\<close>

text \<open>
  The tree that \<^verbatim>\<open>BeautifulSoup(response.content, "html.parser")\<close> builds. A \<open>Tag\<close>
  has a name, its attributes in the order of the source text (the value of an attribute
  as written; \<^verbatim>\<open>class\<close> is split into tokens where it is read) and its children.
  \<open>Text\<close> is a string of the page; \<open>Other\<close> is a string that \<^verbatim>\<open>get_text\<close> leaves out
  (a comment, a declaration, the text of a script or a style sheet). The document itself
  is a \<open>Tag\<close> too (the \<^verbatim>\<open>soup\<close> object), and searches look at the descendants of the
  element they start from, never at the element itself.
\<close>

datatype node = Text string | Other string | Tag string "(string \<times> string) list" "node list"

text \<open>The descendants in document order (\<^verbatim>\<open>el.descendants\<close>).\<close>

fun descendants :: "node \<Rightarrow> node list" and descendants_list :: "node list \<Rightarrow> node list" where
  "descendants (Tag n a cs) = descendants_list cs"
| "descendants (Text s) = []"
| "descendants (Other s) = []"
| "descendants_list [] = []"
| "descendants_list (c # cs) = c # descendants c @ descendants_list cs"

text \<open>\<^verbatim>\<open>el.get(key)\<close>: the attribute, or \<^verbatim>\<open>None\<close>.\<close>

fun get_attr :: "node \<Rightarrow> string \<Rightarrow> string option" where
  "get_attr (Tag n a cs) k = map_of a k"
| "get_attr (Text s) k = None"
| "get_attr (Other s) k = None"

text \<open>\<^verbatim>\<open>el.get("class")\<close>: the list of class tokens; empty also when there is no
  \<^verbatim>\<open>class\<close> attribute (\<^verbatim>\<open>None\<close> and the empty list are both falsy and the source
  only tests the truth value before it iterates).\<close>

definition get_class :: "node \<Rightarrow> string list" where
  "get_class el = (case get_attr el ''class'' of None \<Rightarrow> [] | Some v \<Rightarrow> tokens [] v)"

text \<open>An element with one of the given tag names.\<close>

fun is_named :: "string list \<Rightarrow> node \<Rightarrow> bool" where
  "is_named names (Tag n a cs) = (n \<in> set names)"
| "is_named names (Text s) = False"
| "is_named names (Other s) = False"

text \<open>\<^verbatim>\<open>el.find_all(names)\<close> and \<^verbatim>\<open>el.find(name)\<close> (the first result, or \<^verbatim>\<open>None\<close>).\<close>

definition find_all :: "string list \<Rightarrow> node \<Rightarrow> node list" where
  "find_all names el = filter (is_named names) (descendants el)"

definition find_tag :: "string \<Rightarrow> node \<Rightarrow> node option" where
  "find_tag name el = List.find (is_named [name]) (descendants el)"

text \<open>\<^verbatim>\<open>el.find(name, attrs={key: value})\<close>: the first element of that name whose
  attribute \<open>key\<close> is \<open>value\<close>.\<close>

definition find_tag_attr :: "string \<Rightarrow> string \<Rightarrow> string \<Rightarrow> node \<Rightarrow> node option" where
  "find_tag_attr name key val el =
     List.find (\<lambda>d. is_named [name] d \<and> get_attr d key = Some val) (descendants el)"

text \<open>The strings \<^verbatim>\<open>get_text\<close> collects, \<^verbatim>\<open>el.get_text()\<close>, and
  \<^verbatim>\<open>el.get_text(strip=True)\<close>, which strips every string and drops the empty ones.\<close>

fun text_of :: "node \<Rightarrow> string list" where
  "text_of (Text s) = [s]"
| "text_of (Other s) = []"
| "text_of (Tag n a cs) = []"

definition all_strings :: "node \<Rightarrow> string list" where
  "all_strings el = concat (map text_of (descendants el))"

definition get_text :: "node \<Rightarrow> string" where
  "get_text el = concat (all_strings el)"

definition get_text_strip :: "node \<Rightarrow> string" where
  "get_text_strip el = concat (filter (\<lambda>s. s \<noteq> []) (map strip (all_strings el)))"

section \<open>Elements by position\<close>

text \<open>
  An element handed from one method to the next is a reference into the one tree that
  \<^verbatim>\<open>decompose\<close> and attribute assignments change in place. A reference is modelled by
  the path from the document to the element (the child indices); \<open>node_at\<close> follows a
  path and \<open>update_at\<close> rebuilds the document around a changed element.
\<close>

fun node_at :: "node \<Rightarrow> nat list \<Rightarrow> node option" where
  "node_at n [] = Some n"
| "node_at (Tag m a cs) (i # p) = (if i < length cs then node_at (cs ! i) p else None)"
| "node_at (Text s) (i # p) = None"
| "node_at (Other s) (i # p) = None"

fun update_at :: "nat list \<Rightarrow> (node \<Rightarrow> node) \<Rightarrow> node \<Rightarrow> node" where
  "update_at [] f n = f n"
| "update_at (i # p) f (Tag m a cs) =
     (if i < length cs then Tag m a (cs[i := update_at p f (cs ! i)]) else Tag m a cs)"
| "update_at (i # p) f (Text s) = Text s"
| "update_at (i # p) f (Other s) = Other s"

text \<open>The path of the first descendant, in document order, that satisfies \<open>P\<close>.\<close>

fun first_path :: "(node \<Rightarrow> bool) \<Rightarrow> node \<Rightarrow> nat list option"
  and first_path_list :: "(node \<Rightarrow> bool) \<Rightarrow> nat \<Rightarrow> node list \<Rightarrow> nat list option" where
  "first_path P (Tag n a cs) = first_path_list P 0 cs"
| "first_path P (Text s) = None"
| "first_path P (Other s) = None"
| "first_path_list P i [] = None"
| "first_path_list P i (c # cs) =
     (if P c then Some [i]
      else (case first_path P c of Some p \<Rightarrow> Some (i # p)
            | None \<Rightarrow> first_path_list P (Suc i) cs))"

text \<open>\<^verbatim>\<open>soup.find(name)\<close> as a reference.\<close>

definition find_path :: "string \<Rightarrow> node \<Rightarrow> nat list option" where
  "find_path name soup = first_path (is_named [name]) soup"

section \<open>Selectors\<close>

text \<open>
  The selectors the two parsers pass to \<^verbatim>\<open>select_one\<close> are compound selectors: an
  optional tag name, class names (\<^verbatim>\<open>.c\<close>) and attribute tests, \<^verbatim>\<open>[k="v"]\<close> (the value is
  \<open>v\<close>) and \<^verbatim>\<open>[k*="v"]\<close> (the value contains \<open>v\<close>). An attribute test reads a
  \<^verbatim>\<open>class\<close> attribute as its tokens joined by single spaces.
\<close>

datatype attr_test = AttrEq string string | AttrHas string string

datatype selector = Selector "string option" "string list" "attr_test list"

definition css_value :: "(string \<times> string) list \<Rightarrow> string \<Rightarrow> string option" where
  "css_value a k =
     (if k = ''class'' then map_option (\<lambda>v. join_sp (tokens [] v)) (map_of a k) else map_of a k)"

fun attr_ok :: "(string \<times> string) list \<Rightarrow> attr_test \<Rightarrow> bool" where
  "attr_ok a (AttrEq k v) = (css_value a k = Some v)"
| "attr_ok a (AttrHas k v) = (case css_value a k of None \<Rightarrow> False | Some x \<Rightarrow> contains x v)"

fun sel_matches :: "selector \<Rightarrow> node \<Rightarrow> bool" where
  "sel_matches (Selector tn cls ats) (Tag n a cs) =
     ((case tn of None \<Rightarrow> True | Some t \<Rightarrow> n = t)
      \<and> list_all (\<lambda>c. c \<in> set (get_class (Tag n a cs))) cls
      \<and> list_all (attr_ok a) ats)"
| "sel_matches sel (Text s) = False"
| "sel_matches sel (Other s) = False"

text \<open>\<^verbatim>\<open>soup.select_one(selector)\<close>: the first match in document order, as a reference.\<close>

definition select_one :: "selector \<Rightarrow> node \<Rightarrow> nat list option" where
  "select_one sel soup = first_path (sel_matches sel) soup"

text \<open>
  The loop over the selectors, in both parsers: the first selector with a match gives
  the element, and \<^verbatim>\<open>None\<close> is left when no selector has one.
\<close>

fun cascade :: "selector list \<Rightarrow> node \<Rightarrow> nat list option" where
  "cascade [] soup = None"
| "cascade (sel # sels) soup =
     (case select_one sel soup of Some p \<Rightarrow> Some p | None \<Rightarrow> cascade sels soup)"

text \<open>\<^verbatim>\<open>content_selectors\<close> of \<^verbatim>\<open>DocsParser.extract_content\<close>.\<close>

definition docs_content_selectors :: "selector list" where
  "docs_content_selectors =
     [Selector (Some ''article'') [] [],
      Selector (Some ''main'') [] [],
      Selector None [] [AttrEq ''role'' ''main''],
      Selector None [''document''] [],
      Selector None [''content''] [],
      Selector None [''post-content''] [],
      Selector None [''markdown-body''] [],
      Selector None [''md''] [],
      Selector (Some ''div'') [''document''] [],
      Selector (Some ''div'') [''body''] [],
      Selector (Some ''div'') [] [AttrEq ''role'' ''main'']]"


section \<open>Locating and cleaning the content region\<close>

text \<open>
  \<^verbatim>\<open>for element in content.find_all(names): element.decompose()\<close>: every descendant
  with one of the names is cut out of the tree with all it contains. \<^verbatim>\<open>find_all\<close>
  matches its list against tag names; an element inside an element already cut out is
  gone with it.
\<close>

fun remove_tags :: "string list \<Rightarrow> node \<Rightarrow> node"
  and remove_tags_list :: "string list \<Rightarrow> node list \<Rightarrow> node list" where
  "remove_tags names (Tag n a cs) = Tag n a (remove_tags_list names cs)"
| "remove_tags names (Text s) = Text s"
| "remove_tags names (Other s) = Other s"
| "remove_tags_list names [] = []"
| "remove_tags_list names (c # cs) =
     (if is_named names c then remove_tags_list names cs
      else remove_tags names c # remove_tags_list names cs)"

text \<open>\<^verbatim>\<open>DocsParser.extract_content\<close>: the selectors, the fall back to \<^verbatim>\<open>body\<close>, and
  the two removal loops when an element was found. The result is the document after the
  removals and the reference to the content, \<^verbatim>\<open>None\<close> when there is none.\<close>

definition docs_locate :: "node \<Rightarrow> nat list option" where
  "docs_locate soup =
     (let content = cascade docs_content_selectors soup
      in if content = None then find_path ''body'' soup else content)"

definition docs_clean :: "node \<Rightarrow> node" where
  "docs_clean content =
     remove_tags [''script'', ''style'', ''link'']
       (remove_tags [''nav'', ''header'', ''footer'', ''aside'', ''.sidebar'', ''.navigation'', ''.menu'']
          content)"

definition extract_content :: "node \<Rightarrow> node \<times> nat list option" where
  "extract_content soup =
     (case docs_locate soup of
        None \<Rightarrow> (soup, None)
      | Some p \<Rightarrow> (update_at p docs_clean soup, Some p))"



text \<open>\<^verbatim>\<open>LMSYSParser.save_and_transform\<close>, its first two loops: the \<^verbatim>\<open>style\<close> elements
  and then the \<^verbatim>\<open>script\<close> elements of the content are cut out.\<close>

definition lmsys_clean :: "node \<Rightarrow> node" where
  "lmsys_clean content_element = remove_tags [''script''] (remove_tags [''style''] content_element)"

text \<open>The strings of a region that stand outside every element with one of the given
  names: what a text extraction is to see once those elements are gone.\<close>

fun strings_outside :: "string list \<Rightarrow> node \<Rightarrow> string list"
  and strings_outside_list :: "string list \<Rightarrow> node list \<Rightarrow> string list" where
  "strings_outside names (Tag n a cs) = strings_outside_list names cs"
| "strings_outside names (Text s) = []"
| "strings_outside names (Other s) = []"
| "strings_outside_list names [] = []"
| "strings_outside_list names (c # cs) =
     (if is_named names c then [] else text_of c @ strings_outside names c)
     @ strings_outside_list names cs"

section \<open>Author and date of a blog article\<close>

text \<open>
  The pattern \<^verbatim>\<open>^by:\s*(.+?)\s*,\s*([A-Za-z]+\s+\d+,\s*\d{4})\<close> under \<^verbatim>\<open>re.match\<close>, read
  as the backtracking matcher reads it. \<open>is_alpha\<close> is \<^verbatim>\<open>[A-Za-z]\<close> and \<open>is_digit\<close> is
  \<^verbatim>\<open>\d\<close> (below code point 256 the decimal digits are \<open>0\<close> to \<open>9\<close>).
\<close>

definition is_alpha :: "char \<Rightarrow> bool" where
  "is_alpha c = (c \<in> set ''ABCDEFGHIJKLMNOPQRSTUVWXYZabcdefghijklmnopqrstuvwxyz'')"

definition is_digit :: "char \<Rightarrow> bool" where
  "is_digit c = (c \<in> set ''0123456789'')"

text \<open>
  The part after the author, \<^verbatim>\<open>\s*,\s*([A-Za-z]+\s+\d+,\s*\d{4})\<close>, at the start of \<open>r\<close>;
  the result is the second group. Each repetition is greedy, and what follows a
  repetition never starts with a character of its class, so the longest run is the only
  one that can match.
\<close>

definition date_tail :: "string \<Rightarrow> string option" where
  "date_tail r =
     (let r1 = dropWhile is_space r in
      if \<not> startswith r1 '','' then None else
      let r2 = dropWhile is_space (tl r1);
          month = takeWhile is_alpha r2; r3 = dropWhile is_alpha r2;
          gap = takeWhile is_space r3; r4 = dropWhile is_space r3;
          day = takeWhile is_digit r4; r5 = dropWhile is_digit r4 in
      if month = [] \<or> gap = [] \<or> day = [] \<or> \<not> startswith r5 '','' then None else
      let gap2 = takeWhile is_space (tl r5); r6 = dropWhile is_space (tl r5);
          year = take 4 r6 in
      if length year = 4 \<and> list_all is_digit year
      then Some (month @ gap @ day @ '','' @ gap2 @ year) else None)"

text \<open>
  The lazy group \<^verbatim>\<open>(.+?)\<close>: \<open>author\<close> is what the group holds so far (at least one
  character), and it grows by one character, never a newline, each time the rest of the
  pattern fails where it stands.
\<close>

fun lazy_author :: "string \<Rightarrow> string \<Rightarrow> (string \<times> string) option" where
  "lazy_author author [] = map_option (Pair author) (date_tail [])"
| "lazy_author author (c # cs) =
     (case date_tail (c # cs) of
        Some d \<Rightarrow> Some (author, d)
      | None \<Rightarrow> if c = CHR 0x0A then None else lazy_author (author @ [c]) cs)"

definition author_group :: "string \<Rightarrow> (string \<times> string) option" where
  "author_group r =
     (case r of [] \<Rightarrow> None
      | c # cs \<Rightarrow> if c = CHR 0x0A then None else lazy_author [c] cs)"

text \<open>The greedy \<^verbatim>\<open>\s*\<close> after \<^verbatim>\<open>by:\<close>: it takes the white space, and gives a
  character back when the rest fails.\<close>

fun after_by :: "string \<Rightarrow> (string \<times> string) option" where
  "after_by [] = author_group []"
| "after_by (c # cs) =
     (if is_space c
      then (case after_by cs of Some r \<Rightarrow> Some r | None \<Rightarrow> author_group (c # cs))
      else author_group (c # cs))"

text \<open>\<^verbatim>\<open>re.match(by_pattern, text)\<close>: the two groups, or \<^verbatim>\<open>None\<close>.\<close>

definition by_pattern :: "string \<Rightarrow> (string \<times> string) option" where
  "by_pattern text = (if startswith text ''by:'' then after_by (drop 3 text) else None)"

text \<open>\<^verbatim>\<open>element.decompose()\<close> for the element at a path: it is taken out of the
  children of its parent.\<close>

fun decompose_at :: "nat list \<Rightarrow> node \<Rightarrow> node" where
  "decompose_at [] n = n"
| "decompose_at [i] (Tag m a cs) = Tag m a (take i cs @ drop (Suc i) cs)"
| "decompose_at (i # j # p) (Tag m a cs) =
     (if i < length cs then Tag m a (cs[i := decompose_at (j # p) (cs ! i)]) else Tag m a cs)"
| "decompose_at (i # p) (Text s) = Text s"
| "decompose_at (i # p) (Other s) = Other s"

text \<open>
  \<^verbatim>\<open>LMSYSParser.extract_author_and_date\<close>. The result is the author, the date and
  the content element as the method leaves it.
\<close>

definition extract_author_and_date :: "node \<Rightarrow> string \<times> string option \<times> node" where
  "extract_author_and_date content_element =
     (let author = ''LMSYS Team''; date = None in
      case find_path ''p'' content_element of
        None \<Rightarrow> (author, date, content_element)
      | Some first_paragraph \<Rightarrow>
          (let text = get_text_strip (the (node_at content_element first_paragraph)) in
           case by_pattern text of
             None \<Rightarrow> (author, date, content_element)
           | Some (g1, g2) \<Rightarrow>
               (strip g1, Some (strip g2), decompose_at first_paragraph content_element)))"

section \<open>URLs\<close>



















section \<open>Titles\<close>

text \<open>Python's \<^verbatim>\<open>x or y\<close> on values that are \<^verbatim>\<open>None\<close> or a string, and
  \<^verbatim>\<open>el and f(el)\<close> for an element or \<^verbatim>\<open>None\<close> (an element is always truthy).\<close>

definition py_or :: "string option \<Rightarrow> string option \<Rightarrow> string option" where
  "py_or x y = (if truthy_opt x then x else y)"

definition py_and :: "node option \<Rightarrow> (node \<Rightarrow> string option) \<Rightarrow> string option" where
  "py_and el f = (case el of None \<Rightarrow> None | Some e \<Rightarrow> f e)"

text \<open>The character class \<^verbatim>\<open>[\\/:*?"<>|]\<close> and \<^verbatim>\<open>re.sub\<close> of it by an underscore.\<close>

definition illegal_chars :: "char list" where
  "illegal_chars = [CHR 0x5C, CHR ''/'', CHR '':'', CHR ''*'', CHR ''?'', CHR 0x22,
     CHR ''<'', CHR ''>'', CHR ''|'']"

definition sub_illegal :: "string \<Rightarrow> string" where
  "sub_illegal s = map (\<lambda>c. if c \<in> set illegal_chars then CHR ''_'' else c) s"

text \<open>\<^verbatim>\<open>DocsParser.extract_title\<close>. The chain of \<^verbatim>\<open>or\<close> ends in a literal, so its
  value is a string.\<close>

definition docs_raw_title :: "node \<Rightarrow> string option" where
  "docs_raw_title soup =
     py_or (py_or (py_or (py_or
       (py_and (find_tag_attr ''meta'' ''property'' ''og:title'' soup) (\<lambda>e. get_attr e ''content''))
       (py_and (find_tag_attr ''meta'' ''name'' ''twitter:title'' soup) (\<lambda>e. get_attr e ''content'')))
       (py_and (find_tag ''h1'' soup) (\<lambda>e. Some (get_text_strip e))))
       (py_and (find_tag ''title'' soup)
          (\<lambda>e. Some (strip (hd (split_on (CHR ''|'') (get_text_strip e)))))))
       (Some ''Untitled'')"

definition extract_title :: "node \<Rightarrow> string" where
  "extract_title soup =
     (let title = the (docs_raw_title soup);
          title = sub_illegal title
      in take 100 title)"

text \<open>\<^verbatim>\<open>LMSYSParser.parse_article\<close>, the title: the variable \<^verbatim>\<open>title\<close> starts as
  \<^verbatim>\<open>None\<close> and each step runs only while it is falsy.\<close>

definition lmsys_title :: "node \<Rightarrow> string" where
  "lmsys_title soup =
     (let title = None;
          og_title = find_tag_attr ''meta'' ''property'' ''og:title'' soup;
          title = (if truthy_opt (py_and og_title (\<lambda>e. get_attr e ''content''))
                   then get_attr (the og_title) ''content'' else title);
          title = (if \<not> truthy_opt title then
                     (let twitter_title = find_tag_attr ''meta'' ''name'' ''twitter:title'' soup
                      in if truthy_opt (py_and twitter_title (\<lambda>e. get_attr e ''content''))
                         then get_attr (the twitter_title) ''content'' else title)
                   else title);
          title = (if \<not> truthy_opt title then
                     (case find_tag ''h1'' soup of None \<Rightarrow> title
                      | Some h1 \<Rightarrow> Some (get_text_strip h1))
                   else title);
          title = (if \<not> truthy_opt title then
                     (case find_tag ''title'' soup of None \<Rightarrow> title
                      | Some title_tag \<Rightarrow>
                          Some (py_replace '' | LMSYS Org'' [] (get_text_strip title_tag)))
                   else title);
          title = (if \<not> truthy_opt title then Some ''Untitled'' else title)
      in the title)"

text \<open>
  The fallback chain as the specification words it: the first truthy candidate of a
  list, top to bottom, and the literal \<open>Untitled\<close> when there is none. Both title
  functions above are compared with it.
\<close>

fun first_truthy :: "string option list \<Rightarrow> string" where
  "first_truthy [] = ''Untitled''"
| "first_truthy (x # xs) = (if truthy_opt x then the x else first_truthy xs)"

section \<open>Document assembly\<close>




section \<open>Preparing and saving a documentation page\<close>





text \<open>The loop over the code blocks of \<^verbatim>\<open>DocsParser.preprocess_content\<close> computes
  this value from the class tokens of the \<^verbatim>\<open>code\<close> element of a \<^verbatim>\<open>pre\<close> and does
  nothing with it.\<close>

fun docs_lang_class :: "string list \<Rightarrow> string option" where
  "docs_lang_class [] = None"
| "docs_lang_class (cls # rest) =
     (if startswith cls ''language-'' then Some (py_replace ''language-'' [] cls)
      else if cls \<in> set [''python'', ''javascript'', ''java'', ''cpp'', ''c'', ''bash'', ''shell'',
                            ''json'', ''yaml'', ''xml'', ''html'', ''css'']
      then Some cls
      else docs_lang_class rest)"







section \<open>Converting a blog article\<close>

text \<open>The loop over the class tokens of a \<^verbatim>\<open>code\<close> element in
  \<^verbatim>\<open>LMSYSParser.save_and_transform\<close>: the first token that starts with \<open>language-\<close>
  gives the language.\<close>

fun lmsys_lang_class :: "string list \<Rightarrow> string option" where
  "lmsys_lang_class [] = None"
| "lmsys_lang_class (cls # rest) =
     (if startswith cls ''language-'' then Some (py_replace ''language-'' [] cls)
      else lmsys_lang_class rest)"

text \<open>The body of the loop over the \<^verbatim>\<open>pre\<close> elements: the text that replaces a
  \<^verbatim>\<open>pre\<close> element, or \<^verbatim>\<open>None\<close> when it holds no \<^verbatim>\<open>code\<close> element and stays as it
  is.\<close>

definition lmsys_code_block :: "node \<Rightarrow> string option" where
  "lmsys_code_block pre =
     (case find_tag ''code'' pre of
        None \<Rightarrow> None
      | Some code \<Rightarrow>
          (let lang_class = (if get_class code \<noteq> [] then lmsys_lang_class (get_class code) else None);
               code_text = get_text code
           in if truthy_opt lang_class
              then Some (''\<newline>```'' @ the lang_class @ ''\<newline>'' @ code_text @ ''\<newline>```\<newline>'')
              else Some (''\<newline>```\<newline>'' @ code_text @ ''\<newline>```\<newline>'')))"










section \<open>Lines of a text\<close>

lemma split_on_not_Nil: "split_on sep s \<noteq> []"
  by (induction s) (auto split: list.splits)





section \<open>Titles: the fallback chain, truncation and sanitising\<close>






lemma lmsys_chain_steps:
  "(let title = None;
        og_title = og;
        title = (if truthy_opt (py_and og_title f) then f (the og_title) else title);
        title = (if \<not> truthy_opt title then
                   (let tw' = tw in if truthy_opt (py_and tw' f) then f (the tw') else title)
                 else title);
        title = (if \<not> truthy_opt title then (case h1 of None \<Rightarrow> title | Some e \<Rightarrow> Some (g e))
                 else title);
        title = (if \<not> truthy_opt title then (case tt of None \<Rightarrow> title | Some e \<Rightarrow> Some (h e))
                 else title);
        title = (if \<not> truthy_opt title then Some ''Untitled'' else title)
    in the title) = first_truthy [py_and og f, py_and tw f, map_option g h1, map_option h tt]"
  by (cases og; cases tw; cases h1; cases tt) (simp_all add: Let_def py_and_def truthy_opt_def)

lemma lmsys_title_chain:
  "lmsys_title soup = first_truthy
      [py_and (find_tag_attr ''meta'' ''property'' ''og:title'' soup) (\<lambda>e. get_attr e ''content''),
       py_and (find_tag_attr ''meta'' ''name'' ''twitter:title'' soup) (\<lambda>e. get_attr e ''content''),
       map_option get_text_strip (find_tag ''h1'' soup),
       map_option (\<lambda>e. py_replace '' | LMSYS Org'' [] (get_text_strip e)) (find_tag ''title'' soup)]"
  unfolding lmsys_title_def
  by (rule lmsys_chain_steps [where og = "find_tag_attr ''meta'' ''property'' ''og:title'' soup"
        and f = "\<lambda>e. get_attr e ''content''"
        and tw = "find_tag_attr ''meta'' ''name'' ''twitter:title'' soup"
        and ?h1.0 = "find_tag ''h1'' soup" and g = get_text_strip and tt = "find_tag ''title'' soup"
        and h = "\<lambda>e. py_replace '' | LMSYS Org'' [] (get_text_strip e)"])


lemma sub_illegal_clean: "set (sub_illegal s) \<inter> set illegal_chars = {}"
  by (auto simp: sub_illegal_def illegal_chars_def)


text \<open>
  Claim C2, as amended. In the documentation variant the extracted title is the chosen
  title cut to its first 100 characters (so it has exactly 100 characters when the chosen
  title is longer, and is never longer than 100), it holds none of the characters
  \<open>\\ / : * ? " < > |\<close>, and each of them has been replaced by an underscore.
\<close>

theorem docs_title_sanitized:
  "length (extract_title soup) = min 100 (length (the (docs_raw_title soup)))
   \<and> set (extract_title soup) \<inter> set illegal_chars = {}
   \<and> extract_title soup =
       map (\<lambda>c. if c \<in> set illegal_chars then CHR ''_'' else c) (take 100 (the (docs_raw_title soup)))"
proof -
  have "set (take 100 (sub_illegal t)) \<inter> set illegal_chars = {}" for t
    using sub_illegal_clean [of t] set_take_subset [of 100 "sub_illegal t"] by blast
  moreover have "length (take 100 (sub_illegal t)) = min 100 (length t)" for t
    by (simp add: sub_illegal_def min.commute)
  moreover have "take 100 (sub_illegal t) =
      map (\<lambda>c. if c \<in> set illegal_chars then CHR ''_'' else c) (take 100 t)" for t
    by (simp add: sub_illegal_def take_map)
  ultimately show ?thesis
    unfolding extract_title_def Let_def by blast
qed

text \<open>
  The blog variant does neither: a title \<open>a/b\<close> read from the Open Graph element is kept
  as it is, and a title of 101 characters keeps its 101 characters.
\<close>

theorem blog_title_not_sanitized:
  "lmsys_title (Tag ''[document]'' []
      [Tag ''meta'' [(''property'', ''og:title''), (''content'', ''a/b'')] []]) = ''a/b''
   \<and> CHR ''/'' \<in> set illegal_chars
   \<and> length (lmsys_title (Tag ''[document]'' []
      [Tag ''meta'' [(''property'', ''og:title''), (''content'', replicate 101 (CHR ''a''))] []])) = 101"
  by (simp add: lmsys_title_chain find_tag_attr_def py_and_def truthy_opt_def illegal_chars_def)

section \<open>The layout of the assembled document\<close>




section \<open>References and searches\<close>

lemma first_path_sound:
  "first_path P n = Some p \<Longrightarrow> p \<noteq> [] \<and> (\<exists>d. node_at n p = Some d \<and> P d)"
  "first_path_list P i cs = Some p \<Longrightarrow>
     \<exists>k q d. p = (i + k) # q \<and> k < length cs \<and> node_at (cs ! k) q = Some d \<and> P d"
proof (induction P n and P i cs arbitrary: p and p rule: first_path_first_path_list.induct)
  case (1 P n a cs)
  from "1.IH" [of p] "1.prems" obtain k q d
    where "p = k # q" "k < length cs" "node_at (cs ! k) q = Some d" "P d"
    by auto
  then show ?case by auto
next
  case (5 P i c cs)
  show ?case
  proof (cases "P c")
    case True
    with "5.prems" have "p = (i + 0) # []" by simp
    moreover have "node_at ((c # cs) ! 0) [] = Some c" by simp
    ultimately show ?thesis using True by blast
  next
    case False
    show ?thesis
    proof (cases "first_path P c")
      case (Some q)
      with False "5.prems" have p: "p = (i + 0) # q" by simp
      from "5.IH"(1) [OF False Some] obtain d where "node_at c q = Some d" "P d" by blast
      then have "node_at ((c # cs) ! 0) q = Some d" by simp
      with p \<open>P d\<close> show ?thesis by (metis length_Cons zero_less_Suc)
    next
      case None
      with False "5.prems" have "first_path_list P (Suc i) cs = Some p" by simp
      from "5.IH"(2) [OF False None this] obtain k q d
        where "p = (Suc i + k) # q" "k < length cs" "node_at (cs ! k) q = Some d" "P d" by blast
      then have "p = (i + Suc k) # q" "Suc k < length (c # cs)"
        "node_at ((c # cs) ! Suc k) q = Some d" by simp_all
      with \<open>P d\<close> show ?thesis by blast
    qed
  qed
qed simp_all

lemma find_append:
  "List.find P (xs @ ys) = (case List.find P xs of None \<Rightarrow> List.find P ys | Some x \<Rightarrow> Some x)"
  by (induction xs) auto

lemma first_path_find:
  "(case first_path P n of None \<Rightarrow> List.find P (descendants n) = None
     | Some p \<Rightarrow> node_at n p = List.find P (descendants n))"
  "(case first_path_list P i cs of None \<Rightarrow> List.find P (descendants_list cs) = None
     | Some p \<Rightarrow> \<exists>k q. p = (i + k) # q \<and> k < length cs
          \<and> node_at (cs ! k) q = List.find P (descendants_list cs))"
proof (induction P n and P i cs rule: first_path_first_path_list.induct)
  case (1 P n a cs)
  then show ?case by (auto split: option.splits)
next
  case (5 P i c cs)
  show ?case
  proof (cases "P c")
    case True
    have "node_at ((c # cs) ! 0) [] = List.find P (descendants_list (c # cs))"
      using True by simp
    then have "\<exists>k q. [i] = (i + k) # q \<and> k < length (c # cs)
          \<and> node_at ((c # cs) ! k) q = List.find P (descendants_list (c # cs))"
      by (intro exI [of _ 0] exI [of _ "[]"]) simp
    with True show ?thesis by simp
  next
    case False
    show ?thesis
    proof (cases "first_path P c")
      case (Some q)
      with "5.IH"(1) [OF False] have "node_at c q = List.find P (descendants c)" by simp
      moreover from first_path_sound(1) [OF Some] have "node_at c q \<noteq> None" by auto
      ultimately have "node_at ((c # cs) ! 0) q = List.find P (descendants_list (c # cs))"
        using False by (auto simp: find_append split: option.splits)
      then have "\<exists>k q'. i # q = (i + k) # q' \<and> k < length (c # cs)
          \<and> node_at ((c # cs) ! k) q' = List.find P (descendants_list (c # cs))"
        by (intro exI [of _ 0] exI [of _ q]) simp
      with False Some show ?thesis by simp
    next
      case None
      with "5.IH"(1) [OF False] have nf: "List.find P (descendants c) = None" by simp
      show ?thesis
      proof (cases "first_path_list P (Suc i) cs")
        case fn: None
        with "5.IH"(2) [OF False None] have "List.find P (descendants_list cs) = None" by simp
        with False None fn nf show ?thesis by (simp add: find_append)
      next
        case (Some p)
        with "5.IH"(2) [OF False None] obtain k q where
          "p = (Suc i + k) # q" "k < length cs"
          "node_at (cs ! k) q = List.find P (descendants_list cs)" by auto
        then have "p = (i + Suc k) # q \<and> Suc k < length (c # cs)
          \<and> node_at ((c # cs) ! Suc k) q = List.find P (descendants_list (c # cs))"
          using False nf by (simp add: find_append)
        then have "\<exists>k q. p = (i + k) # q \<and> k < length (c # cs)
          \<and> node_at ((c # cs) ! k) q = List.find P (descendants_list (c # cs))" by blast
        with False None Some show ?thesis by simp
      qed
    qed
  qed
qed simp_all

lemma find_path_find_tag:
  "find_path name soup = Some p \<Longrightarrow> node_at soup p = find_tag name soup"
  "find_path name soup = None \<Longrightarrow> find_tag name soup = None"
  using first_path_find(1) [of "is_named [name]" soup]
  by (simp_all add: find_path_def find_tag_def)

section \<open>Locating the content region\<close>











section \<open>Author and date: when the first paragraph does not match\<close>

lemma extract_author_and_date_cases:
  "extract_author_and_date c =
     (case find_tag ''p'' c of
        None \<Rightarrow> (''LMSYS Team'', None, c)
      | Some para \<Rightarrow>
          (case by_pattern (get_text_strip para) of
             None \<Rightarrow> (''LMSYS Team'', None, c)
           | Some (g1, g2) \<Rightarrow> (strip g1, Some (strip g2), decompose_at (the (find_path ''p'' c)) c)))"
proof (cases "find_path ''p'' c")
  case None
  then show ?thesis
    using find_path_find_tag(2) [OF None] by (simp add: extract_author_and_date_def)
next
  case (Some fp)
  from find_path_find_tag(1) [OF Some] first_path_sound(1) [of "is_named [''p'']" c fp] Some
  obtain para where "node_at c fp = Some para" "find_tag ''p'' c = Some para"
    by (auto simp: find_path_def)
  with Some show ?thesis
    by (simp add: extract_author_and_date_def Let_def split: option.splits)
qed

text \<open>
  Claim C10. When the content region holds no paragraph, or the text of its first
  paragraph does not match the pattern, \<open>extract_author_and_date\<close> returns the author
  \<open>LMSYS Team\<close> and no date and leaves the region as it was. The region is changed only
  when the first paragraph matches the whole pattern.
\<close>

theorem no_match_keeps_region:
  "(find_tag ''p'' content = None \<longrightarrow>
      extract_author_and_date content = (''LMSYS Team'', None, content))
   \<and> (find_tag ''p'' content = Some para \<and> by_pattern (get_text_strip para) = None \<longrightarrow>
      extract_author_and_date content = (''LMSYS Team'', None, content))
   \<and> (snd (snd (extract_author_and_date content)) \<noteq> content \<longrightarrow>
      (\<exists>first_paragraph g1 g2. find_tag ''p'' content = Some first_paragraph
         \<and> by_pattern (get_text_strip first_paragraph) = Some (g1, g2)))"
  by (auto simp: extract_author_and_date_cases split: option.splits)

text \<open>A region with no paragraph, and a region whose first paragraph reads
  \<open>by Jane Doe\<close>.\<close>

theorem no_match_keeps_region_witness:
  "extract_author_and_date (Tag ''article'' [] [Tag ''h1'' [] [Text ''Title'']])
     = (''LMSYS Team'', None, Tag ''article'' [] [Tag ''h1'' [] [Text ''Title'']])
   \<and> extract_author_and_date
       (Tag ''article'' [] [Tag ''p'' [] [Text ''by Jane Doe''], Tag ''p'' [] [Text ''Hello'']])
     = (''LMSYS Team'', None,
        Tag ''article'' [] [Tag ''p'' [] [Text ''by Jane Doe''], Tag ''p'' [] [Text ''Hello'']])"
proof -
  have a: "find_tag ''p'' (Tag ''article'' [] [Tag ''h1'' [] [Text ''Title'']]) = None"
    by (simp add: find_tag_def)
  have b: "find_tag ''p''
        (Tag ''article'' [] [Tag ''p'' [] [Text ''by Jane Doe''], Tag ''p'' [] [Text ''Hello'']])
      = Some (Tag ''p'' [] [Text ''by Jane Doe''])"
    by (simp add: find_tag_def)
  have c: "by_pattern (get_text_strip (Tag ''p'' [] [Text ''by Jane Doe''])) = None"
    by (simp add: get_text_strip_def all_strings_def strip_def is_space_def by_pattern_def)
  show ?thesis
    using no_match_keeps_region [of "Tag ''article'' [] [Tag ''h1'' [] [Text ''Title'']]"]
      no_match_keeps_region [of
        "Tag ''article'' [] [Tag ''p'' [] [Text ''by Jane Doe''], Tag ''p'' [] [Text ''Hello'']]"
        "Tag ''p'' [] [Text ''by Jane Doe'']"]
      a b c
    by simp
qed

section \<open>Author and date: when the first paragraph matches\<close>

lemma startswith_eq: "startswith s p \<Longrightarrow> s = p @ drop (length p) s"
  by (induction s p rule: startswith.induct) auto

lemma list_all_takeWhile: "list_all P (takeWhile P xs)"
  by (induction xs) auto

lemma date_tail_sound:
  assumes "date_tail r = Some d"
  shows "\<exists>ws1 ws2 month gap day gap2 year rest.
           r = ws1 @ '','' @ ws2 @ d @ rest \<and> list_all is_space ws1 \<and> list_all is_space ws2
           \<and> d = month @ gap @ day @ '','' @ gap2 @ year
           \<and> month \<noteq> [] \<and> list_all is_alpha month \<and> gap \<noteq> [] \<and> list_all is_space gap
           \<and> day \<noteq> [] \<and> list_all is_digit day \<and> list_all is_space gap2
           \<and> length year = 4 \<and> list_all is_digit year"
proof -
  define ws1 where "ws1 = takeWhile is_space r"
  define r1 where "r1 = dropWhile is_space r"
  define ws2 where "ws2 = takeWhile is_space (tl r1)"
  define r2 where "r2 = dropWhile is_space (tl r1)"
  define month where "month = takeWhile is_alpha r2"
  define r3 where "r3 = dropWhile is_alpha r2"
  define gap where "gap = takeWhile is_space r3"
  define r4 where "r4 = dropWhile is_space r3"
  define day where "day = takeWhile is_digit r4"
  define r5 where "r5 = dropWhile is_digit r4"
  define gap2 where "gap2 = takeWhile is_space (tl r5)"
  define r6 where "r6 = dropWhile is_space (tl r5)"
  define year where "year = take 4 r6"
  define rest where "rest = drop 4 r6"
  note defs = ws1_def r1_def ws2_def r2_def month_def r3_def gap_def r4_def day_def r5_def
    gap2_def r6_def year_def rest_def
  from assms have c1: "startswith r1 '',''"
    unfolding date_tail_def Let_def defs by (simp split: if_splits)
  from assms have c2: "month \<noteq> []" "gap \<noteq> []" "day \<noteq> []" "startswith r5 '',''"
    unfolding date_tail_def Let_def defs by (simp_all split: if_splits)
  from assms have c3: "length year = 4" "list_all is_digit year"
    and d: "d = month @ gap @ day @ '','' @ gap2 @ year"
    unfolding date_tail_def Let_def defs by (simp_all split: if_splits)
  have e6: "r6 = year @ rest" by (simp add: year_def rest_def)
  have e5: "r5 = '','' @ gap2 @ r6"
    using startswith_eq [OF c2(4)] by (cases r5) (simp_all add: gap2_def r6_def)
  have e4: "r4 = day @ r5" by (simp add: day_def r5_def)
  have e3: "r3 = gap @ r4" by (simp add: gap_def r4_def)
  have e2: "r2 = month @ r3" by (simp add: month_def r3_def)
  have e1: "r1 = '','' @ ws2 @ r2"
    using startswith_eq [OF c1] by (cases r1) (simp_all add: ws2_def r2_def)
  have e0: "r = ws1 @ r1" by (simp add: ws1_def r1_def)
  have r: "r = ws1 @ '','' @ ws2 @ d @ rest"
    unfolding e0 e1 e2 e3 e4 e5 e6 d by simp
  have sp: "list_all is_space ws1" "list_all is_space ws2" "list_all is_alpha month"
    "list_all is_space gap" "list_all is_digit day" "list_all is_space gap2"
    by (simp_all add: ws1_def ws2_def month_def gap_def day_def gap2_def list_all_takeWhile)
  from r d c2 c3 sp show ?thesis by blast
qed

lemma lazy_author_sound:
  "lazy_author a r = Some (g1, d) \<Longrightarrow>
     \<exists>x tail. g1 = a @ x \<and> r = x @ tail \<and> CHR 0x0A \<notin> set x \<and> date_tail tail = Some d"
proof (induction r arbitrary: a)
  case Nil
  then show ?case by auto
next
  case (Cons c cs)
  show ?case
  proof (cases "date_tail (c # cs)")
    case (Some d')
    with Cons.prems have "g1 = a @ [] \<and> c # cs = [] @ (c # cs) \<and> CHR 0x0A \<notin> set ([] :: string)
        \<and> date_tail (c # cs) = Some d"
      by simp
    then show ?thesis by (intro exI [of _ "[]"] exI [of _ "c # cs"])
  next
    case None
    with Cons.prems have nl: "c \<noteq> CHR 0x0A" and rec: "lazy_author (a @ [c]) cs = Some (g1, d)"
      by (simp_all split: if_splits)
    from Cons.IH [OF rec] obtain x tail where
      "g1 = (a @ [c]) @ x" "cs = x @ tail" "CHR 0x0A \<notin> set x" "date_tail tail = Some d" by blast
    with nl have "g1 = a @ (c # x) \<and> c # cs = (c # x) @ tail \<and> CHR 0x0A \<notin> set (c # x)
        \<and> date_tail tail = Some d" by simp
    then show ?thesis by blast
  qed
qed

lemma author_group_sound:
  assumes "author_group r = Some (g1, d)"
  shows "\<exists>tail. r = g1 @ tail \<and> g1 \<noteq> [] \<and> CHR 0x0A \<notin> set g1 \<and> date_tail tail = Some d"
proof (cases r)
  case Nil
  with assms show ?thesis by (simp add: author_group_def)
next
  case (Cons c cs)
  with assms have nl: "c \<noteq> CHR 0x0A" and rec: "lazy_author [c] cs = Some (g1, d)"
    by (simp_all add: author_group_def split: if_splits)
  from lazy_author_sound [OF rec] obtain x tail where
    "g1 = [c] @ x" "cs = x @ tail" "CHR 0x0A \<notin> set x" "date_tail tail = Some d" by blast
  with nl Cons have "r = g1 @ tail \<and> g1 \<noteq> [] \<and> CHR 0x0A \<notin> set g1 \<and> date_tail tail = Some d"
    by simp
  then show ?thesis by blast
qed

lemma after_by_sound:
  "after_by s = Some (g1, d) \<Longrightarrow>
     \<exists>ws tail. s = ws @ g1 @ tail \<and> list_all is_space ws \<and> g1 \<noteq> [] \<and> CHR 0x0A \<notin> set g1
        \<and> date_tail tail = Some d"
proof (induction s)
  case Nil
  then show ?case by (simp add: author_group_def)
next
  case (Cons c cs)
  have direct: ?case if "author_group (c # cs) = Some (g1, d)"
  proof -
    from author_group_sound [OF that] obtain tail where
      "c # cs = g1 @ tail" "g1 \<noteq> []" "CHR 0x0A \<notin> set g1" "date_tail tail = Some d" by auto
    then have "c # cs = [] @ g1 @ tail \<and> list_all is_space [] \<and> g1 \<noteq> []
        \<and> CHR 0x0A \<notin> set g1 \<and> date_tail tail = Some d" by simp
    then show ?thesis by (intro exI [of _ "[]"] exI [of _ tail])
  qed
  show ?case
  proof (cases "is_space c \<and> after_by cs \<noteq> None")
    case True
    with Cons.prems have "after_by cs = Some (g1, d)" by auto
    from Cons.IH [OF this] obtain ws tail where
      "cs = ws @ g1 @ tail" "list_all is_space ws" "g1 \<noteq> []" "CHR 0x0A \<notin> set g1"
      "date_tail tail = Some d" by blast
    with True have "c # cs = (c # ws) @ g1 @ tail \<and> list_all is_space (c # ws) \<and> g1 \<noteq> []
        \<and> CHR 0x0A \<notin> set g1 \<and> date_tail tail = Some d" by simp
    then show ?thesis by blast
  next
    case False
    with Cons.prems have "author_group (c # cs) = Some (g1, d)"
      by (auto split: if_splits option.splits)
    then show ?thesis by (rule direct)
  qed
qed

lemma by_pattern_sound:
  assumes "by_pattern text = Some (g1, g2)"
  shows "\<exists>ws1 ws2 ws3 month gap day gap2 year rest.
           text = ''by:'' @ ws1 @ g1 @ ws2 @ '','' @ ws3 @ g2 @ rest
           \<and> list_all is_space ws1 \<and> list_all is_space ws2 \<and> list_all is_space ws3
           \<and> g1 \<noteq> [] \<and> CHR 0x0A \<notin> set g1
           \<and> g2 = month @ gap @ day @ '','' @ gap2 @ year
           \<and> month \<noteq> [] \<and> list_all is_alpha month \<and> gap \<noteq> [] \<and> list_all is_space gap
           \<and> day \<noteq> [] \<and> list_all is_digit day \<and> list_all is_space gap2
           \<and> length year = 4 \<and> list_all is_digit year"
proof -
  from assms have sw: "startswith text ''by:''" and ab: "after_by (drop 3 text) = Some (g1, g2)"
    by (simp_all add: by_pattern_def split: if_splits)
  from startswith_eq [OF sw] have t: "text = ''by:'' @ drop 3 text"
    by (simp add: numeral_3_eq_3)
  from after_by_sound [OF ab] obtain ws1 tail where
    a: "drop 3 text = ws1 @ g1 @ tail" "list_all is_space ws1" "g1 \<noteq> []" "CHR 0x0A \<notin> set g1"
    and dt: "date_tail tail = Some g2" by blast
  from date_tail_sound [OF dt] obtain ws2 ws3 month gap day gap2 year rest where
    b: "tail = ws2 @ '','' @ ws3 @ g2 @ rest" "list_all is_space ws2" "list_all is_space ws3"
       "g2 = month @ gap @ day @ '','' @ gap2 @ year"
       "month \<noteq> []" "list_all is_alpha month" "gap \<noteq> []" "list_all is_space gap"
       "day \<noteq> []" "list_all is_digit day" "list_all is_space gap2"
       "length year = 4" "list_all is_digit year" by blast
  have "''by:'' @ drop 3 text = ''by:'' @ ws1 @ g1 @ ws2 @ '','' @ ws3 @ g2 @ rest"
    unfolding a(1) b(1) by simp
  with t have "text = ''by:'' @ ws1 @ g1 @ ws2 @ '','' @ ws3 @ g2 @ rest" by simp
  with a b show ?thesis by blast
qed

lemma descendants_list_append:
  "descendants_list (xs @ ys) = descendants_list xs @ descendants_list ys"
  by (induction xs) auto

lemma decompose_at_Tag: "text_of (decompose_at p (Tag m a cs)) = []"
proof (cases p)
  case Nil
  then show ?thesis by simp
next
  case (Cons i q)
  then show ?thesis by (cases q) simp_all
qed

lemma decompose_at_strings:
  "node_at n p = Some d \<Longrightarrow> p \<noteq> [] \<Longrightarrow>
     \<exists>pre post. all_strings n = pre @ (text_of d @ all_strings d) @ post
        \<and> all_strings (decompose_at p n) = pre @ post"
proof (induction p n arbitrary: d rule: decompose_at.induct)
  case (2 i m a cs)
  then have i: "i < length cs" and d: "d = cs ! i" by (auto split: if_splits)
  have "cs = take i cs @ d # drop (Suc i) cs"
    using i d by (simp add: id_take_nth_drop)
  then have "descendants_list cs =
      descendants_list (take i cs) @ (d # descendants d) @ descendants_list (drop (Suc i) cs)"
    by (metis descendants_list.simps(2) descendants_list_append append_Cons append_assoc)
  then have "all_strings (Tag m a cs) =
      concat (map text_of (descendants_list (take i cs))) @ (text_of d @ all_strings d)
        @ concat (map text_of (descendants_list (drop (Suc i) cs)))
    \<and> all_strings (decompose_at [i] (Tag m a cs)) =
      concat (map text_of (descendants_list (take i cs)))
        @ concat (map text_of (descendants_list (drop (Suc i) cs)))"
    by (simp add: all_strings_def descendants_list_append)
  then show ?case by blast
next
  case (3 i j p m a cs)
  then have i: "i < length cs" and sub: "node_at (cs ! i) (j # p) = Some d"
    by (auto split: if_splits)
  from "3.IH" [OF i sub] obtain pre post where
    ih: "all_strings (cs ! i) = pre @ (text_of d @ all_strings d) @ post"
        "all_strings (decompose_at (j # p) (cs ! i)) = pre @ post" by auto
  define c' where "c' = decompose_at (j # p) (cs ! i)"
  have tag: "text_of (cs ! i) = [] \<and> text_of c' = []"
    using sub unfolding c'_def by (cases "cs ! i") (simp_all add: decompose_at_Tag)
  have "cs = take i cs @ (cs ! i) # drop (Suc i) cs"
    using i by (simp add: id_take_nth_drop)
  then have e1: "descendants_list cs = descendants_list (take i cs)
      @ ((cs ! i) # descendants (cs ! i)) @ descendants_list (drop (Suc i) cs)"
    by (metis descendants_list.simps(2) descendants_list_append append_Cons append_assoc)
  have "cs[i := c'] = take i cs @ c' # drop (Suc i) cs"
    using i by (simp add: upd_conv_take_nth_drop)
  then have e2: "descendants_list (cs[i := c']) = descendants_list (take i cs)
      @ (c' # descendants c') @ descendants_list (drop (Suc i) cs)"
    by (metis descendants_list.simps(2) descendants_list_append append_Cons append_assoc)
  have "all_strings (Tag m a cs) =
      (concat (map text_of (descendants_list (take i cs))) @ pre) @ (text_of d @ all_strings d)
        @ (post @ concat (map text_of (descendants_list (drop (Suc i) cs))))
    \<and> all_strings (decompose_at (i # j # p) (Tag m a cs)) =
      (concat (map text_of (descendants_list (take i cs))) @ pre)
        @ (post @ concat (map text_of (descendants_list (drop (Suc i) cs))))"
    using i tag ih e1 e2 unfolding c'_def [symmetric]
    by (simp add: all_strings_def c'_def [symmetric])
  then show ?case by blast
qed simp_all

lemma strip_id: "s \<noteq> [] \<Longrightarrow> \<not> is_space (hd s) \<Longrightarrow> \<not> is_space (last s) \<Longrightarrow> strip s = s"
proof -
  assume s: "s \<noteq> []" and h: "\<not> is_space (hd s)" and l: "\<not> is_space (last s)"
  from s h have "dropWhile is_space s = s" by (cases s) simp_all
  moreover from s l have "dropWhile is_space (rev s) = rev s"
    by (cases "rev s") (simp_all add: hd_rev [symmetric])
  ultimately show ?thesis by (simp add: strip_def)
qed

lemma alpha_not_space: "is_alpha c \<Longrightarrow> \<not> is_space c"
  by (auto simp: is_alpha_def is_space_def)

lemma digit_not_space: "is_digit c \<Longrightarrow> \<not> is_space c"
  by (auto simp: is_digit_def is_space_def)

lemma by_pattern_date_stripped:
  assumes "by_pattern text = Some (g1, g2)"
  shows "strip g2 = g2"
proof -
  from by_pattern_sound [OF assms] obtain month gap day gap2 year where
    g2: "g2 = month @ gap @ day @ '','' @ gap2 @ year" and m: "month \<noteq> []" "list_all is_alpha month"
    and y: "length year = 4" "list_all is_digit year" by blast
  from m have "hd g2 = hd month" "is_alpha (hd month)" unfolding g2 by (cases month; simp)+
  then have h: "\<not> is_space (hd g2)" by (simp add: alpha_not_space)
  from y have yn: "year \<noteq> []" by auto
  then have "last g2 = last year" unfolding g2 by simp
  moreover from yn y(2) have "is_digit (last year)"
    by (metis last_in_set list_all_iff)
  ultimately have l: "\<not> is_space (last g2)" by (simp add: digit_not_space)
  from m have "g2 \<noteq> []" unfolding g2 by simp
  then show ?thesis using h l by (rule strip_id)
qed

lemma find_path_p_node:
  assumes "find_tag ''p'' content = Some para"
  shows "\<exists>fp. find_path ''p'' content = Some fp \<and> fp \<noteq> [] \<and> node_at content fp = Some para"
proof (cases "find_path ''p'' content")
  case None
  from find_path_find_tag(2) [OF None] assms show ?thesis by simp
next
  case (Some fp)
  from first_path_sound(1) [of "is_named [''p'']" content fp] Some
  have "fp \<noteq> []" by (simp add: find_path_def)
  with find_path_find_tag(1) [OF Some] assms Some show ?thesis by simp
qed

text \<open>
  Claim C4. When the stripped text of the first paragraph of the content region matches
  the pattern, it reads \<open>by:\<close>, white space, the author, white space, a comma, white
  space, and a date made of letters, white space, digits, a comma, white space and four
  digits; the author is the stripped first group, the date is the second group, and the
  paragraph is cut out of the region, so that the strings of the region are those it had
  without the strings of that paragraph. When the text does not match, the author is
  \<open>LMSYS Team\<close> and there is no date; an author with no date after it, such as
  \<open>by: Jane Doe\<close>, is not a match.
\<close>

theorem first_paragraph_match:
  "(find_tag ''p'' content = Some para \<and> by_pattern (get_text_strip para) = Some (g1, g2) \<longrightarrow>
      (\<exists>region. extract_author_and_date content = (strip g1, Some g2, region)
         \<and> (\<exists>pre post. all_strings content = pre @ all_strings para @ post
               \<and> all_strings region = pre @ post))
      \<and> (\<exists>ws1 ws2 ws3 month gap day gap2 year rest.
            get_text_strip para = ''by:'' @ ws1 @ g1 @ ws2 @ '','' @ ws3 @ g2 @ rest
            \<and> list_all is_space ws1 \<and> list_all is_space ws2 \<and> list_all is_space ws3
            \<and> g1 \<noteq> [] \<and> CHR 0x0A \<notin> set g1
            \<and> g2 = month @ gap @ day @ '','' @ gap2 @ year
            \<and> month \<noteq> [] \<and> list_all is_alpha month \<and> gap \<noteq> [] \<and> list_all is_space gap
            \<and> day \<noteq> [] \<and> list_all is_digit day \<and> list_all is_space gap2
            \<and> length year = 4 \<and> list_all is_digit year))
   \<and> (find_tag ''p'' content = Some para \<and> by_pattern (get_text_strip para) = None \<longrightarrow>
        fst (extract_author_and_date content) = ''LMSYS Team''
        \<and> fst (snd (extract_author_and_date content)) = None)
   \<and> by_pattern ''by: Jane Doe'' = None
   \<and> by_pattern ''by: Jane Doe, in January'' = None
   \<and> by_pattern ''by: Jan 5, 2025'' = None"
proof -
  have match: "(\<exists>region. extract_author_and_date content = (strip g1, Some g2, region)
         \<and> (\<exists>pre post. all_strings content = pre @ all_strings para @ post
               \<and> all_strings region = pre @ post))"
    if h: "find_tag ''p'' content = Some para \<and> by_pattern (get_text_strip para) = Some (g1, g2)"
  proof -
    from find_path_p_node [of content para] h obtain fp where
      fp: "find_path ''p'' content = Some fp" "fp \<noteq> []" "node_at content fp = Some para" by blast
    from h have "is_named [''p''] para"
      by (auto simp: find_tag_def find_Some_iff)
    then have para: "text_of para = []" by (cases para) simp_all
    from decompose_at_strings [OF fp(3) fp(2)] para obtain pre post where
      "all_strings content = pre @ all_strings para @ post"
      "all_strings (decompose_at fp content) = pre @ post" by auto
    moreover have "extract_author_and_date content
        = (strip g1, Some g2, decompose_at fp content)"
      using h fp by_pattern_date_stripped [of "get_text_strip para" g1 g2]
      by (simp add: extract_author_and_date_cases)
    ultimately show ?thesis by blast
  qed
  have nomatch: "fst (extract_author_and_date content) = ''LMSYS Team''
        \<and> fst (snd (extract_author_and_date content)) = None"
    if "find_tag ''p'' content = Some para \<and> by_pattern (get_text_strip para) = None"
    using that by (simp add: extract_author_and_date_cases)
  have partial: "by_pattern ''by: Jane Doe'' = None"
    "by_pattern ''by: Jane Doe, in January'' = None"
    "by_pattern ''by: Jan 5, 2025'' = None"
    by (simp_all add: by_pattern_def author_group_def date_tail_def is_space_def is_alpha_def
        is_digit_def Let_def)
  from match by_pattern_sound [of "get_text_strip para" g1 g2] nomatch partial
  show ?thesis by blast
qed

text \<open>The first paragraph \<open>by: Jane Doe, Jan 5, 2025\<close>: the author is \<open>Jane Doe\<close>, the date
  is \<open>Jan 5, 2025\<close>, and the region is left with its second paragraph only.\<close>

lemma jane_doe_match:
  "by_pattern ''by: Jane Doe, Jan 5, 2025'' = Some (''Jane Doe'', ''Jan 5, 2025'')"
  by (simp add: by_pattern_def author_group_def date_tail_def is_space_def is_alpha_def
      is_digit_def Let_def)

theorem first_paragraph_match_witness:
  "extract_author_and_date
     (Tag ''article'' [] [Tag ''p'' [] [Text ''by: Jane Doe, Jan 5, 2025''], Tag ''p'' [] [Text ''Hello'']])
   = (''Jane Doe'', Some ''Jan 5, 2025'', Tag ''article'' [] [Tag ''p'' [] [Text ''Hello'']])
   \<and> by_pattern ''by: Jane Doe, Jan 5, 2025'' = Some (''Jane Doe'', ''Jan 5, 2025'')
   \<and> all_strings (Tag ''article'' [] [Tag ''p'' [] [Text ''Hello'']]) = [''Hello'']"
proof -
  have a: "find_tag ''p''
      (Tag ''article'' [] [Tag ''p'' [] [Text ''by: Jane Doe, Jan 5, 2025''], Tag ''p'' [] [Text ''Hello'']])
      = Some (Tag ''p'' [] [Text ''by: Jane Doe, Jan 5, 2025''])"
    by (simp add: find_tag_def)
  have b: "get_text_strip (Tag ''p'' [] [Text ''by: Jane Doe, Jan 5, 2025''])
      = ''by: Jane Doe, Jan 5, 2025''"
    by (simp add: get_text_strip_def all_strings_def strip_def is_space_def)
  have c: "find_path ''p''
      (Tag ''article'' [] [Tag ''p'' [] [Text ''by: Jane Doe, Jan 5, 2025''], Tag ''p'' [] [Text ''Hello'']])
      = Some [0]"
    by (simp add: find_path_def)
  have d: "strip ''Jane Doe'' = ''Jane Doe''"
    by (simp add: strip_def is_space_def)
  from first_paragraph_match [of
      "Tag ''article'' [] [Tag ''p'' [] [Text ''by: Jane Doe, Jan 5, 2025''], Tag ''p'' [] [Text ''Hello'']]"
      "Tag ''p'' [] [Text ''by: Jane Doe, Jan 5, 2025'']" "''Jane Doe''" "''Jan 5, 2025''"]
    a b jane_doe_match
  obtain region where "extract_author_and_date
     (Tag ''article'' [] [Tag ''p'' [] [Text ''by: Jane Doe, Jan 5, 2025''], Tag ''p'' [] [Text ''Hello'']])
     = (strip ''Jane Doe'', Some ''Jan 5, 2025'', region)"
    by auto
  moreover have "snd (snd (extract_author_and_date
     (Tag ''article'' [] [Tag ''p'' [] [Text ''by: Jane Doe, Jan 5, 2025''], Tag ''p'' [] [Text ''Hello'']])))
     = Tag ''article'' [] [Tag ''p'' [] [Text ''Hello'']]"
    using a b c jane_doe_match by (simp add: extract_author_and_date_cases)
  ultimately show ?thesis
    using d jane_doe_match by (simp add: all_strings_def)
qed

section \<open>Cleaning the content region\<close>

lemma is_named_remove_tags: "is_named names (remove_tags ns d) = is_named names d"
  by (cases d) simp_all

lemma text_of_remove_tags: "text_of (remove_tags ns d) = text_of d"
  by (cases d) simp_all

lemma descendants_remove_tags:
  "e \<in> set (descendants (remove_tags ns n)) \<Longrightarrow>
     \<exists>d \<in> set (descendants n). e = remove_tags ns d \<and> \<not> is_named ns d"
  "e \<in> set (descendants_list (remove_tags_list ns cs)) \<Longrightarrow>
     \<exists>d \<in> set (descendants_list cs). e = remove_tags ns d \<and> \<not> is_named ns d"
proof (induction ns n and ns cs rule: remove_tags_remove_tags_list.induct)
  case (5 names c cs)
  show ?case
  proof (cases "is_named names c")
    case True
    with "5.prems" "5.IH"(1) show ?thesis by auto
  next
    case False
    with "5.prems" have "e = remove_tags names c \<or> e \<in> set (descendants (remove_tags names c))
        \<or> e \<in> set (descendants_list (remove_tags_list names cs))" by auto
    with False "5.IH"(2,3) show ?thesis by auto
  qed
qed simp_all

lemma remove_tags_clean:
  "list_all (\<lambda>e. \<not> is_named ns e) (descendants (remove_tags ns n))"
proof -
  have "\<not> is_named ns e" if "e \<in> set (descendants (remove_tags ns n))" for e
    using descendants_remove_tags(1) [OF that] by (auto simp: is_named_remove_tags)
  then show ?thesis by (auto simp: list_all_iff)
qed

lemma remove_tags_keeps_clean:
  assumes "list_all (\<lambda>e. \<not> is_named names e) (descendants n)"
  shows "list_all (\<lambda>e. \<not> is_named names e) (descendants (remove_tags ns n))"
proof -
  have "\<not> is_named names e" if "e \<in> set (descendants (remove_tags ns n))" for e
    using descendants_remove_tags(1) [OF that] assms
    by (auto simp: is_named_remove_tags list_all_iff)
  then show ?thesis by (auto simp: list_all_iff)
qed

lemma is_named_append: "is_named (xs @ ys) e = (is_named xs e \<or> is_named ys e)"
  by (cases e) auto

lemma all_strings_remove_tags:
  "all_strings (remove_tags ns n) = strings_outside ns n"
  "concat (map text_of (descendants_list (remove_tags_list ns cs))) = strings_outside_list ns cs"
  by (induction ns n and ns cs rule: remove_tags_remove_tags_list.induct)
    (simp_all add: all_strings_def text_of_remove_tags)

lemma strings_outside_twice:
  "strings_outside ns2 (remove_tags ns1 n) = strings_outside (ns1 @ ns2) n"
  "strings_outside_list ns2 (remove_tags_list ns1 cs) = strings_outside_list (ns1 @ ns2) cs"
  by (induction ns1 n and ns1 cs rule: remove_tags_remove_tags_list.induct)
    (auto simp: is_named_remove_tags text_of_remove_tags is_named_append)

lemma update_at_frame:
  "(\<forall>r. q \<noteq> p @ r) \<Longrightarrow> (\<forall>r. p \<noteq> q @ r) \<Longrightarrow> node_at (update_at p f n) q = node_at n q"
proof (induction p f n arbitrary: q rule: update_at.induct)
  case (1 f n)
  then show ?case by simp
next
  case (2 i p f m a cs)
  show ?case
  proof (cases q)
    case Nil
    with "2.prems" show ?thesis by simp
  next
    case (Cons j q')
    show ?thesis
    proof (cases "i < length cs")
      case False
      then show ?thesis by simp
    next
      case True
      show ?thesis
      proof (cases "j = i")
        case False
        with True Cons show ?thesis by simp
      next
        case same: True
        from "2.prems" Cons same have "\<forall>r. q' \<noteq> p @ r" "\<forall>r. p \<noteq> q' @ r" by auto
        from "2.IH" [OF True this] True Cons same show ?thesis by simp
      qed
    qed
  qed
qed simp_all

lemma node_at_update_at_same:
  "node_at (update_at p f n) p = map_option f (node_at n p)"
proof (induction p f n rule: update_at.induct)
  case (2 i p f m a cs)
  then show ?case by simp
qed simp_all

text \<open>
  Claim C7, as amended. In the documentation variant the cleaning removes from the
  content region every \<open>nav\<close>, \<open>header\<close>, \<open>footer\<close>, \<open>aside\<close>, \<open>script\<close>, \<open>style\<close> and
  \<open>link\<close> element: none is left among the descendants of the region, the strings of the
  region are those that stood outside the removed elements, the region is the only part
  of the document that changes, and an element that is neither inside the region nor
  one of its ancestors is the same before and after. In the blog variant the cleaning
  removes the \<open>style\<close> and \<open>script\<close> elements of the region, in the same way.
\<close>

theorem cleaning_removes:
  "list_all (\<lambda>e. \<not> is_named [''nav'', ''header'', ''footer'', ''aside'', ''script'', ''style'', ''link''] e)
     (descendants (docs_clean region))
   \<and> all_strings (docs_clean region) =
       strings_outside [''nav'', ''header'', ''footer'', ''aside'', ''.sidebar'', ''.navigation'',
         ''.menu'', ''script'', ''style'', ''link''] region
   \<and> list_all (\<lambda>e. \<not> is_named [''style'', ''script''] e) (descendants (lmsys_clean region))
   \<and> all_strings (lmsys_clean region) = strings_outside [''style'', ''script''] region
   \<and> (extract_content soup = (soup', Some p) \<longrightarrow>
        node_at soup' p = map_option docs_clean (node_at soup p)
        \<and> (\<forall>q. (\<forall>r. q \<noteq> p @ r) \<and> (\<forall>r. p \<noteq> q @ r) \<longrightarrow> node_at soup' q = node_at soup q))"
proof -
  let ?A = "[''nav'', ''header'', ''footer'', ''aside'', ''.sidebar'', ''.navigation'', ''.menu'']"
  let ?B = "[''script'', ''style'', ''link'']"
  have a: "list_all (\<lambda>e. \<not> is_named ?A e) (descendants (docs_clean region))"
    unfolding docs_clean_def by (rule remove_tags_keeps_clean) (rule remove_tags_clean)
  have b: "list_all (\<lambda>e. \<not> is_named ?B e) (descendants (docs_clean region))"
    unfolding docs_clean_def by (rule remove_tags_clean)
  have named: "is_named [''nav'', ''header'', ''footer'', ''aside'', ''script'', ''style'', ''link''] e
      \<Longrightarrow> is_named ?A e \<or> is_named ?B e" for e
    by (cases e) auto
  have docs: "list_all (\<lambda>e. \<not> is_named
      [''nav'', ''header'', ''footer'', ''aside'', ''script'', ''style'', ''link''] e)
      (descendants (docs_clean region))"
    using a b named unfolding list_all_iff by blast
  have docs_text: "all_strings (docs_clean region) =
       strings_outside [''nav'', ''header'', ''footer'', ''aside'', ''.sidebar'', ''.navigation'',
         ''.menu'', ''script'', ''style'', ''link''] region"
    unfolding docs_clean_def all_strings_remove_tags(1) strings_outside_twice(1) by simp
  have c: "list_all (\<lambda>e. \<not> is_named [''style''] e) (descendants (lmsys_clean region))"
    unfolding lmsys_clean_def by (rule remove_tags_keeps_clean) (rule remove_tags_clean)
  have d: "list_all (\<lambda>e. \<not> is_named [''script''] e) (descendants (lmsys_clean region))"
    unfolding lmsys_clean_def by (rule remove_tags_clean)
  have named2: "is_named [''style'', ''script''] e \<Longrightarrow> is_named [''style''] e \<or> is_named [''script''] e"
    for e by (cases e) auto
  have lmsys: "list_all (\<lambda>e. \<not> is_named [''style'', ''script''] e)
      (descendants (lmsys_clean region))"
    using c d named2 unfolding list_all_iff by blast
  have lmsys_text: "all_strings (lmsys_clean region) = strings_outside [''style'', ''script''] region"
    unfolding lmsys_clean_def all_strings_remove_tags(1) strings_outside_twice(1) by simp
  have frame: "node_at soup' p = map_option docs_clean (node_at soup p)
        \<and> (\<forall>q. (\<forall>r. q \<noteq> p @ r) \<and> (\<forall>r. p \<noteq> q @ r) \<longrightarrow> node_at soup' q = node_at soup q)"
    if "extract_content soup = (soup', Some p)"
  proof -
    from that have "soup' = update_at p docs_clean soup"
      by (auto simp: extract_content_def split: option.splits)
    then show ?thesis
      by (simp add: node_at_update_at_same update_at_frame)
  qed
  from docs docs_text lmsys lmsys_text frame show ?thesis by blast
qed

text \<open>A page with a script in its head, a navigation bar in its body and an article
  that holds a navigation bar, a paragraph and a script: the article loses its
  navigation bar and its script, the head and the bar of the body stay.\<close>

theorem cleaning_removes_witness:
  "extract_content (Tag ''[document]'' [] [Tag ''html'' []
       [Tag ''head'' [] [Tag ''script'' [] [Other ''s'']],
        Tag ''body'' [] [Tag ''nav'' [] [Text ''site''],
          Tag ''article'' [] [Tag ''nav'' [] [Text ''menu''], Tag ''p'' [] [Text ''hi''],
            Tag ''script'' [] [Other ''t'']]]]])
   = (Tag ''[document]'' [] [Tag ''html'' []
       [Tag ''head'' [] [Tag ''script'' [] [Other ''s'']],
        Tag ''body'' [] [Tag ''nav'' [] [Text ''site''],
          Tag ''article'' [] [Tag ''p'' [] [Text ''hi'']]]]], Some [0, 1, 1])
   \<and> node_at (Tag ''[document]'' [] [Tag ''html'' []
       [Tag ''head'' [] [Tag ''script'' [] [Other ''s'']],
        Tag ''body'' [] [Tag ''nav'' [] [Text ''site''],
          Tag ''article'' [] [Tag ''p'' [] [Text ''hi'']]]]]) [0, 0]
     = Some (Tag ''head'' [] [Tag ''script'' [] [Other ''s'']])"
proof -
  have e: "extract_content (Tag ''[document]'' [] [Tag ''html'' []
       [Tag ''head'' [] [Tag ''script'' [] [Other ''s'']],
        Tag ''body'' [] [Tag ''nav'' [] [Text ''site''],
          Tag ''article'' [] [Tag ''nav'' [] [Text ''menu''], Tag ''p'' [] [Text ''hi''],
            Tag ''script'' [] [Other ''t'']]]]])
   = (Tag ''[document]'' [] [Tag ''html'' []
       [Tag ''head'' [] [Tag ''script'' [] [Other ''s'']],
        Tag ''body'' [] [Tag ''nav'' [] [Text ''site''],
          Tag ''article'' [] [Tag ''p'' [] [Text ''hi'']]]]], Some [0, 1, 1])"
    by (simp add: extract_content_def docs_locate_def docs_content_selectors_def select_one_def
        docs_clean_def)
  have q: "(\<forall>r. [0, 0] \<noteq> [0, 1, 1] @ r) \<and> (\<forall>r. [0, 1, 1] \<noteq> [0, 0 :: nat] @ r)" by simp
  from cleaning_removes [of _ "Tag ''[document]'' [] [Tag ''html'' []
       [Tag ''head'' [] [Tag ''script'' [] [Other ''s'']],
        Tag ''body'' [] [Tag ''nav'' [] [Text ''site''],
          Tag ''article'' [] [Tag ''nav'' [] [Text ''menu''], Tag ''p'' [] [Text ''hi''],
            Tag ''script'' [] [Other ''t'']]]]]"
      "Tag ''[document]'' [] [Tag ''html'' []
       [Tag ''head'' [] [Tag ''script'' [] [Other ''s'']],
        Tag ''body'' [] [Tag ''nav'' [] [Text ''site''],
          Tag ''article'' [] [Tag ''p'' [] [Text ''hi'']]]]]" "[0, 1, 1]"] e q
  have "node_at (Tag ''[document]'' [] [Tag ''html'' []
       [Tag ''head'' [] [Tag ''script'' [] [Other ''s'']],
        Tag ''body'' [] [Tag ''nav'' [] [Text ''site''],
          Tag ''article'' [] [Tag ''p'' [] [Text ''hi'']]]]]) [0, 0]
     = node_at (Tag ''[document]'' [] [Tag ''html'' []
       [Tag ''head'' [] [Tag ''script'' [] [Other ''s'']],
        Tag ''body'' [] [Tag ''nav'' [] [Text ''site''],
          Tag ''article'' [] [Tag ''nav'' [] [Text ''menu''], Tag ''p'' [] [Text ''hi''],
            Tag ''script'' [] [Other ''t'']]]]]) [0, 0]"
    by blast
  with e show ?thesis by simp
qed

text \<open>The blog variant leaves a navigation bar of the region in place, and its text is
  still read.\<close>

theorem blog_cleaning_keeps_nav:
  "lmsys_clean (Tag ''article'' [] [Tag ''nav'' [] [Text ''menu''], Tag ''p'' [] [Text ''hi'']])
     = Tag ''article'' [] [Tag ''nav'' [] [Text ''menu''], Tag ''p'' [] [Text ''hi'']]
   \<and> find_all [''nav'']
        (lmsys_clean (Tag ''article'' [] [Tag ''nav'' [] [Text ''menu''], Tag ''p'' [] [Text ''hi'']]))
     = [Tag ''nav'' [] [Text ''menu'']]
   \<and> get_text (lmsys_clean (Tag ''article'' [] [Tag ''nav'' [] [Text ''menu''], Tag ''p'' [] [Text ''hi'']]))
     = ''menuhi''"
  by (simp add: lmsys_clean_def find_all_def get_text_def all_strings_def)

text \<open>In the documentation variant the names \<open>.sidebar\<close>, \<open>.navigation\<close> and \<open>.menu\<close> of the
  removal list are compared with tag names, so an element that carries the class
  \<open>sidebar\<close> stays in the region.\<close>

lemma docs_cleaning_keeps_class_sidebar:
  "docs_clean (Tag ''article'' [] [Tag ''div'' [(''class'', ''sidebar'')] [Text ''menu''],
      Tag ''p'' [] [Text ''hi'']])
   = Tag ''article'' [] [Tag ''div'' [(''class'', ''sidebar'')] [Text ''menu''], Tag ''p'' [] [Text ''hi'']]"
  by (simp add: docs_clean_def)

section \<open>Code blocks and ordered lists of a blog article\<close>

lemma lmsys_lang_class_find:
  "lmsys_lang_class cls =
     map_option (py_replace ''language-'' []) (List.find (\<lambda>c. startswith c ''language-'') cls)"
  by (induction cls) auto

lemma lmsys_code_block_fence:
  assumes "find_tag ''code'' pre = Some code"
  shows "lmsys_code_block pre = Some (''\<newline>```''
           @ (case List.find (\<lambda>c. startswith c ''language-'') (get_class code) of
                None \<Rightarrow> [] | Some c \<Rightarrow> py_replace ''language-'' [] c)
           @ ''\<newline>'' @ get_text code @ ''\<newline>```\<newline>'')"
proof (cases "List.find (\<lambda>c. startswith c ''language-'') (get_class code)")
  case None
  with assms show ?thesis
    by (simp add: lmsys_code_block_def Let_def lmsys_lang_class_find truthy_opt_def)
next
  case (Some c)
  then have "get_class code \<noteq> []" by auto
  with assms Some show ?thesis
    by (simp add: lmsys_code_block_def Let_def lmsys_lang_class_find truthy_opt_def)
qed

lemma language_python: "py_replace ''language-'' [] ''language-python'' = ''python''"
  by simp

text \<open>
  Claim C3, as amended. In the blog variant a \<open>pre\<close> element that holds a \<open>code\<close> element
  is replaced by a newline, the fence \<open>```\<close> followed by the language, a newline, the text
  of the \<open>code\<close> element as it is, a newline, the closing fence and a newline. The language
  is the first class token of the \<open>code\<close> element that starts with \<open>language-\<close>, with
  \<open>language-\<close> deleted, and the fence has no language when there is no such token. So
  when that token is \<open>language-python\<close> and the text is \<open>print(1)\<close>, the fenced block is
  \<open>```python\<close>, \<open>print(1)\<close>, \<open>```\<close>. A \<open>pre\<close> element with no \<open>code\<close> element is not
  replaced.
\<close>

theorem blog_code_fence:
  "(find_tag ''code'' pre = Some code \<longrightarrow>
      lmsys_code_block pre = Some (''\<newline>```''
           @ (case List.find (\<lambda>c. startswith c ''language-'') (get_class code) of
                None \<Rightarrow> [] | Some c \<Rightarrow> py_replace ''language-'' [] c)
           @ ''\<newline>'' @ get_text code @ ''\<newline>```\<newline>''))
   \<and> (find_tag ''code'' pre = Some code
        \<and> List.find (\<lambda>c. startswith c ''language-'') (get_class code) = Some ''language-python''
        \<and> get_text code = ''print(1)'' \<longrightarrow>
      lmsys_code_block pre = Some ''\<newline>```python\<newline>print(1)\<newline>```\<newline>'')
   \<and> (find_tag ''code'' pre = None \<longrightarrow> lmsys_code_block pre = None)"
proof -
  have "lmsys_code_block pre = Some ''\<newline>```python\<newline>print(1)\<newline>```\<newline>''"
    if "find_tag ''code'' pre = Some code
        \<and> List.find (\<lambda>c. startswith c ''language-'') (get_class code) = Some ''language-python''
        \<and> get_text code = ''print(1)''"
    using that lmsys_code_block_fence [of pre code] language_python by simp
  moreover have "find_tag ''code'' pre = None \<longrightarrow> lmsys_code_block pre = None"
    by (simp add: lmsys_code_block_def)
  ultimately show ?thesis using lmsys_code_block_fence [of pre code] by blast
qed

text \<open>A \<open>pre\<close> element whose \<open>code\<close> element has the classes \<open>hljs\<close> and
  \<open>language-python\<close>, and one with no \<open>code\<close> element.\<close>

theorem blog_code_fence_witness:
  "lmsys_code_block (Tag ''pre'' []
      [Tag ''code'' [(''class'', ''hljs language-python'')] [Text ''print(1)'']])
     = Some ''\<newline>```python\<newline>print(1)\<newline>```\<newline>''
   \<and> lmsys_code_block (Tag ''pre'' [] [Text ''print(1)'']) = None"
proof -
  have a: "find_tag ''code'' (Tag ''pre'' []
      [Tag ''code'' [(''class'', ''hljs language-python'')] [Text ''print(1)'']])
      = Some (Tag ''code'' [(''class'', ''hljs language-python'')] [Text ''print(1)''])"
    by (simp add: find_tag_def)
  have b: "List.find (\<lambda>c. startswith c ''language-'')
      (get_class (Tag ''code'' [(''class'', ''hljs language-python'')] [Text ''print(1)'']))
      = Some ''language-python''"
    by (simp add: get_class_def is_space_def)
  have c: "get_text (Tag ''code'' [(''class'', ''hljs language-python'')] [Text ''print(1)''])
      = ''print(1)''"
    by (simp add: get_text_def all_strings_def)
  have d: "find_tag ''code'' (Tag ''pre'' [] [Text ''print(1)'']) = None"
    by (simp add: find_tag_def)
  show ?thesis
    using blog_code_fence [of "Tag ''pre'' []
        [Tag ''code'' [(''class'', ''hljs language-python'')] [Text ''print(1)'']]"
        "Tag ''code'' [(''class'', ''hljs language-python'')] [Text ''print(1)'']"]
      blog_code_fence [of "Tag ''pre'' [] [Text ''print(1)'']"] a b c d
    by simp
qed

text \<open>A bare language name is not read as a language: the \<open>code\<close> class \<open>python\<close> gives
  a fence with no language in the blog variant. (The documentation variant does find
  \<open>python\<close> in its list of names, and then makes no use of it.)\<close>

theorem bare_language_class_untagged:
  "lmsys_code_block (Tag ''pre'' [] [Tag ''code'' [(''class'', ''python'')] [Text ''print(1)'']])
     = Some ''\<newline>```\<newline>print(1)\<newline>```\<newline>''
   \<and> docs_lang_class (get_class (Tag ''code'' [(''class'', ''python'')] [Text ''print(1)'']))
     = Some ''python''"
  by (simp add: lmsys_code_block_def find_tag_def get_class_def is_space_def truthy_opt_def
      get_text_def all_strings_def)





section \<open>Image sources of a documentation page\<close>



lemma descendants_map:
  assumes "\<And>d. descendants (g d) = map g (descendants d)"
  shows "descendants_list (map g cs) = map g (descendants_list cs)"
  using assms by (induction cs) simp_all









end
